theory Spec2Isabelle
  imports Complex_Main "HOL-Library.List_Lexorder"
begin

section \<open>Strings and the Go library functions the generator calls\<close>

text \<open>
  A Go string that is valid UTF-8 (every key the JSON decoder hands out is) is modelled by
  the list of its code points. Byte-wise comparison of valid UTF-8 is the lexicographic
  order of the code points, which is the order \<open>List_Lexorder\<close> puts on \<open>rune list\<close>.
  Literals of the source are written \<open>str ''...''\<close>.
\<close>

type_synonym rune = nat
type_synonym gostring = "rune list"

definition str :: "string \<Rightarrow> gostring" where
  "str s = map of_char s"

text \<open>
  Package \<open>unicode\<close> is not part of the repository. Its behaviour on ASCII is written out
  below; its tables beyond ASCII are a parameter of the whole development.
\<close>

record unicode =
  letter_tab :: "rune \<Rightarrow> bool"
  digit_tab :: "rune \<Rightarrow> bool"
  space_tab :: "rune \<Rightarrow> bool"
  upper_tab :: "rune \<Rightarrow> rune"
  lower_tab :: "rune \<Rightarrow> rune"
  title_tab :: "rune \<Rightarrow> rune"

definition ascii_upper :: "rune \<Rightarrow> bool" where
  "ascii_upper r = (65 \<le> r \<and> r \<le> 90)"

definition ascii_lower :: "rune \<Rightarrow> bool" where
  "ascii_lower r = (97 \<le> r \<and> r \<le> 122)"

definition ascii_digit :: "rune \<Rightarrow> bool" where
  "ascii_digit r = (48 \<le> r \<and> r \<le> 57)"

definition IsLetter :: "unicode \<Rightarrow> rune \<Rightarrow> bool" where
  "IsLetter U r = (if r < 128 then ascii_upper r \<or> ascii_lower r else letter_tab U r)"

definition IsDigit :: "unicode \<Rightarrow> rune \<Rightarrow> bool" where
  "IsDigit U r = (if r < 128 then ascii_digit r else digit_tab U r)"

definition IsSpace :: "unicode \<Rightarrow> rune \<Rightarrow> bool" where
  "IsSpace U r = (if r < 128 then r \<in> {9, 10, 11, 12, 13, 32} else space_tab U r)"

definition ToUpper :: "unicode \<Rightarrow> rune \<Rightarrow> rune" where
  "ToUpper U r = (if r < 128 then (if ascii_lower r then r - 32 else r) else upper_tab U r)"

definition ToLower :: "unicode \<Rightarrow> rune \<Rightarrow> rune" where
  "ToLower U r = (if r < 128 then (if ascii_upper r then r + 32 else r) else lower_tab U r)"

definition ToTitle :: "unicode \<Rightarrow> rune \<Rightarrow> rune" where
  "ToTitle U r = (if r < 128 then (if ascii_lower r then r - 32 else r) else title_tab U r)"

text \<open>\<open>strings.ToUpper\<close> and \<open>strings.ToLower\<close> map every code point.\<close>

definition strings_ToUpper :: "unicode \<Rightarrow> gostring \<Rightarrow> gostring" where
  "strings_ToUpper U s = map (ToUpper U) s"

definition strings_ToLower :: "unicode \<Rightarrow> gostring \<Rightarrow> gostring" where
  "strings_ToLower U s = map (ToLower U) s"

text \<open>
  \<open>strings.Title\<close> title-cases every code point that follows a separator, starting as if a
  space came before the string. ASCII letters, digits and the underscore are no separators;
  beyond ASCII, letters and digits are none, and otherwise only spaces are.
\<close>

definition isSeparator :: "unicode \<Rightarrow> rune \<Rightarrow> bool" where
  "isSeparator U r =
     (if r \<le> 127 then \<not> (ascii_digit r \<or> ascii_lower r \<or> ascii_upper r \<or> r = 95)
      else if IsLetter U r \<or> IsDigit U r then False
      else IsSpace U r)"

fun Title_from :: "unicode \<Rightarrow> rune \<Rightarrow> gostring \<Rightarrow> gostring" where
  "Title_from U prev [] = []"
| "Title_from U prev (r # rs) =
     (if isSeparator U prev then ToTitle U r else r) # Title_from U r rs"

definition strings_Title :: "unicode \<Rightarrow> gostring \<Rightarrow> gostring" where
  "strings_Title U s = Title_from U 32 s"

text \<open>
  \<open>strings.Split(s, "_")\<close>: the pieces between the underscores (code point 95), one more
  than there are underscores, so never an empty list.
\<close>

fun strings_Split :: "gostring \<Rightarrow> gostring list" where
  "strings_Split [] = [[]]"
| "strings_Split (c # cs) =
     (if c = 95 then [] # strings_Split cs
      else (case strings_Split cs of
              [] \<Rightarrow> [[c]]
            | p # ps \<Rightarrow> (c # p) # ps))"

definition strings_Join :: "gostring list \<Rightarrow> gostring" where
  "strings_Join parts = concat parts"

section \<open>The field namer\<close>

definition uppercaseFixups :: "gostring \<rightharpoonup> bool" where
  "uppercaseFixups = map_of [(str ''id'', True), (str ''url'', True), (str ''dob'', True)]"

text \<open>Reading a Go \<open>map[string]bool\<close> at a missing key gives \<open>false\<close>.\<close>

definition isFixup :: "gostring \<Rightarrow> bool" where
  "isFixup s = (case uppercaseFixups s of None \<Rightarrow> False | Some b \<Rightarrow> b)"

text \<open>
  The last loop of \<open>fmtFieldName\<close>: position 0 must hold a letter, every other position a
  letter or a digit; anything else becomes the underscore.
\<close>

fun fixRunes :: "unicode \<Rightarrow> nat \<Rightarrow> gostring \<Rightarrow> gostring" where
  "fixRunes U i [] = []"
| "fixRunes U i (c # cs) =
     (let ok = IsLetter U c \<or> IsDigit U c;
          ok = (if i = 0 then IsLetter U c else ok)
      in (if \<not> ok then 95 else c) # fixRunes U (i + 1) cs)"

definition fmtFieldName :: "unicode \<Rightarrow> gostring \<Rightarrow> bool \<Rightarrow> gostring" where
  "fmtFieldName U s fixUpper =
     (let parts = map (strings_Title U) (strings_Split s);
          parts =
            (if length parts > 0 then
               (let last = parts ! (length parts - 1)
                in if fixUpper \<and> isFixup (strings_ToLower U last)
                   then parts[length parts - 1 := strings_ToUpper U last]
                   else parts)
             else parts);
          assembled = strings_Join parts
      in fixRunes U 0 assembled)"

definition lowerFirst :: "unicode \<Rightarrow> gostring \<Rightarrow> gostring" where
  "lowerFirst U s = (case s of [] \<Rightarrow> [] | r # rest \<Rightarrow> ToLower U r # rest)"

section \<open>Decoded values\<close>

text \<open>
  The dynamic types an \<open>interface{}\<close> can hold here: the six the JSON decoder produces and
  \<open>[]map[string]interface{}\<close>, which the type switches of the source name. A Go map is an
  association list; its order stands for the order in which \<open>range\<close> happens to visit it.
\<close>

datatype gvalue =
    GNil
  | GBool bool
  | GFloat64 real
  | GString gostring
  | GSlice "gvalue list"
  | GMap "(gostring \<times> gvalue) list"
  | GMapSlice "(gostring \<times> gvalue) list list"

type_synonym gomap = "(gostring \<times> gvalue) list"

datatype rtype = TBool | TFloat64 | TString | TSlice | TMap | TMapSlice

text \<open>\<open>reflect.TypeOf\<close>; \<open>None\<close> is the nil type of a nil interface.\<close>

fun TypeOf :: "gvalue \<Rightarrow> rtype option" where
  "TypeOf GNil = None"
| "TypeOf (GBool b) = Some TBool"
| "TypeOf (GFloat64 x) = Some TFloat64"
| "TypeOf (GString s) = Some TString"
| "TypeOf (GSlice xs) = Some TSlice"
| "TypeOf (GMap m) = Some TMap"
| "TypeOf (GMapSlice ms) = Some TMapSlice"

text \<open>\<open>Type.Name\<close>: the name of a defined type, empty for an unnamed one.\<close>

fun Name :: "rtype \<Rightarrow> gostring" where
  "Name TBool = str ''bool''"
| "Name TFloat64 = str ''float64''"
| "Name TString = str ''string''"
| "Name TSlice = []"
| "Name TMap = []"
| "Name TMapSlice = []"

text \<open>The verb \<open>%T\<close> of package \<open>fmt\<close>.\<close>

fun fmtT :: "gvalue \<Rightarrow> gostring" where
  "fmtT GNil = str ''<nil>''"
| "fmtT (GBool b) = str ''bool''"
| "fmtT (GFloat64 x) = str ''float64''"
| "fmtT (GString s) = str ''string''"
| "fmtT (GSlice xs) = str ''[]interface {}''"
| "fmtT (GMap m) = str ''map[string]interface {}''"
| "fmtT (GMapSlice ms) = str ''[]map[string]interface {}''"

text \<open>\<open>obj[key]\<close>: the nil interface at a missing key.\<close>

definition index_map :: "gomap \<Rightarrow> gostring \<Rightarrow> gvalue" where
  "index_map obj key = (case map_of obj key of None \<Rightarrow> GNil | Some v \<Rightarrow> v)"

section \<open>Styles and struct tags\<close>

type_synonym Style = gostring

definition StyleUnderscores :: Style where
  "StyleUnderscores = str ''underscores''"

definition StyleCamelCase :: Style where
  "StyleCamelCase = str ''camelcase''"

definition StyleNone :: Style where
  "StyleNone = str ''none''"

definition IsValidStyle :: "Style \<Rightarrow> bool" where
  "IsValidStyle style =
     (style = StyleUnderscores \<or> style = StyleCamelCase \<or> style = StyleNone)"

text \<open>The package-level variables that \<open>generateTypes\<close> reads.\<close>

record config =
  jsonStyle :: Style
  jsonExtra :: gostring
  bsonStyle :: Style
  bsonExtra :: gostring

text \<open>
  The source writes the same block twice, once for bson and once for json: the name by
  style, the extra after a comma, the whole wrapped as \<open>label:"..."\<close>.
\<close>

definition tagFieldName :: "unicode \<Rightarrow> Style \<Rightarrow> gostring \<Rightarrow> gostring \<Rightarrow> gostring" where
  "tagFieldName U style extra key =
     (let fieldName = [];
          fieldName =
            (if style = StyleUnderscores then key
             else if style = StyleCamelCase then lowerFirst U (fmtFieldName U key False)
             else fieldName);
          fieldName = (if extra \<noteq> [] then fieldName @ str '','' @ extra else fieldName)
      in fieldName)"

definition fieldTags :: "unicode \<Rightarrow> config \<Rightarrow> gostring \<Rightarrow> gostring" where
  "fieldTags U cfg key =
     (if jsonStyle cfg \<noteq> StyleNone \<or> bsonStyle cfg \<noteq> StyleNone then
        str ''`''
        @ (if bsonStyle cfg \<noteq> StyleNone then
             str ''bson:\"'' @ tagFieldName U (bsonStyle cfg) (bsonExtra cfg) key @ str ''\"''
             @ (if jsonStyle cfg \<noteq> StyleNone then str '' '' else [])
           else [])
        @ (if jsonStyle cfg \<noteq> StyleNone then
             str ''json:\"'' @ tagFieldName U (jsonStyle cfg) (jsonExtra cfg) key @ str ''\"''
           else [])
        @ str ''`''
      else [])"

text \<open>What one round of the loop appends to \<open>structure\<close>, once the field's type is known.\<close>

definition fieldEntry :: "unicode \<Rightarrow> config \<Rightarrow> gostring \<Rightarrow> gostring \<Rightarrow> gostring" where
  "fieldEntry U cfg key valueType =
     str ''\<newline>'' @ fmtFieldName U key True @ str '' '' @ valueType @ fieldTags U cfg key"

section \<open>The type inferencer\<close>

text \<open>
  \<open>generateTypes\<close> and \<open>typeForValue\<close> call each other; \<open>generateField\<close> is one round of
  the loop of \<open>generateTypes\<close> over the sorted keys. \<open>None\<close> is a run-time panic: the only
  one they can raise is the index \<open>value[0]\<close> into an empty \<open>[]map[string]interface{}\<close>.
  The map \<open>types\<close> of \<open>typeForValue\<close> is modelled by the list of the distinct dynamic
  types of the elements.
\<close>

function (sequential)
  generateTypes :: "unicode \<Rightarrow> config \<Rightarrow> gomap \<Rightarrow> int \<Rightarrow> gostring option" and
  generateField :: "unicode \<Rightarrow> config \<Rightarrow> gomap \<Rightarrow> int \<Rightarrow> gostring \<Rightarrow> gostring option" and
  typeForValue :: "unicode \<Rightarrow> config \<Rightarrow> gvalue \<Rightarrow> gostring option" where
  "generateTypes U cfg obj depth =
     map_option (\<lambda>fields. str ''struct {'' @ concat fields)
       (those (map (generateField U cfg obj depth) (sort (map fst obj))))"
| "generateField U cfg obj depth key =
     (case typeForValue U cfg (index_map obj key) of
        None \<Rightarrow> None
      | Some valueType \<Rightarrow>
          map_option (fieldEntry U cfg key)
            (case index_map obj key of
               GMapSlice ms \<Rightarrow>
                 (case ms of
                    [] \<Rightarrow> None
                  | m # rest \<Rightarrow>
                      map_option (\<lambda>t. str ''[]'' @ t @ str ''}'')
                        (generateTypes U cfg m (depth + 1)))
             | GMap m \<Rightarrow> map_option (\<lambda>t. t @ str ''}'') (generateTypes U cfg m (depth + 1))
             | _ \<Rightarrow> Some valueType))"
| "typeForValue U cfg (GSlice objects) =
     (if length (remdups (map TypeOf objects)) = 1 then
        (case objects of
           [] \<Rightarrow> None
         | x # rest \<Rightarrow> map_option (\<lambda>t. str ''[]'' @ t) (typeForValue U cfg x))
      else Some (str ''[]interface{}''))"
| "typeForValue U cfg (GMap object) =
     map_option (\<lambda>t. t @ str ''}'') (generateTypes U cfg object 0)"
| "typeForValue U cfg v =
     (case TypeOf v of
        None \<Rightarrow> Some (str ''interface{}'')
      | Some t \<Rightarrow> Some (Name t))"
  by pat_completeness auto

termination
proof -
  let ?sz = "size_list (size_prod (\<lambda>_. 0) size) :: gomap \<Rightarrow> nat"
  have at_key: "size (index_map obj key) \<le> ?sz obj" for obj key
    by (induction obj) (auto simp: index_map_def)
  have to_value: "3 * size (index_map obj key) < Suc (3 * ?sz obj)" for obj key
    using at_key [of obj key] by simp
  have in_map: "Suc (3 * ?sz m) < 3 * ?sz obj" if "index_map obj key = GMap m" for obj key m
    using at_key [of obj key] unfolding that by simp
  have in_slice: "Suc (3 * ?sz m) < 3 * ?sz obj"
    if "index_map obj key = GMapSlice (m # rest)" for obj key m rest
    using at_key [of obj key] unfolding that by simp
  show ?thesis
    by (relation "measure (\<lambda>a. case a of
            Inl (U, cfg, obj, depth) \<Rightarrow> 3 * ?sz obj + 2
          | Inr (Inl (U, cfg, obj, depth, key)) \<Rightarrow> 3 * ?sz obj + 1
          | Inr (Inr (U, cfg, v)) \<Rightarrow> 3 * size v)")
       (simp_all add: to_value in_map in_slice)
qed

declare generateTypes.simps [simp del] generateField.simps [simp del]

section \<open>The JSON decoder and the entry point\<close>

text \<open>
  \<open>encoding/json\<close> is not part of the repository. Decoding into an \<open>interface{}\<close> stores
  nil, bool, float64 and string for the scalars, \<open>[]interface{}\<close> for an array and
  \<open>map[string]interface{}\<close> for an object, where a repeated key keeps its last value.
\<close>

datatype json =
    JNull
  | JBool bool
  | JNumber real
  | JString gostring
  | JArray "json list"
  | JObject "(gostring \<times> json) list"

fun store :: "gostring \<times> gvalue \<Rightarrow> gomap \<Rightarrow> gomap" where
  "store (k, v) [] = [(k, v)]"
| "store (k, v) (p # ps) = (if fst p = k then (k, v) # ps else p # store (k, v) ps)"

fun decode :: "json \<Rightarrow> gvalue" where
  "decode JNull = GNil"
| "decode (JBool b) = GBool b"
| "decode (JNumber x) = GFloat64 x"
| "decode (JString s) = GString s"
| "decode (JArray xs) = GSlice (map decode xs)"
| "decode (JObject members) = GMap (fold store (map (\<lambda>(k, v). (k, decode v)) members) [])"

text \<open>A Go error is its message; a panic is kept apart.\<close>

datatype error = Error gostring | Panic

text \<open>
  \<open>generate\<close> reads the document from \<open>input\<close>: \<open>Inl\<close> is the decoder's own error on
  malformed bytes, \<open>Inr\<close> the document it parsed. \<open>format.Source\<close> is a parameter.
\<close>

definition generate ::
  "unicode \<Rightarrow> config \<Rightarrow> (gostring \<Rightarrow> gostring + gostring) \<Rightarrow> gostring + json \<Rightarrow>
   gostring \<Rightarrow> gostring \<Rightarrow> error + gostring" where
  "generate U cfg format_Source input structName pkgName =
     (case input of
        Inl err \<Rightarrow> Inl (Error err)
      | Inr doc \<Rightarrow>
          (case (case decode doc of
                   GMap m \<Rightarrow> Inr m
                 | GMapSlice ms \<Rightarrow>
                     (if length ms > 0 then Inr (ms ! 0) else Inl (Error (str ''empty array'')))
                 | iresult \<Rightarrow> Inl (Error (str ''unexpected type: '' @ fmtT iresult))) of
             Inl e \<Rightarrow> Inl e
           | Inr result \<Rightarrow>
               (case generateTypes U cfg result 0 of
                  None \<Rightarrow> Inl Panic
                | Some body \<Rightarrow>
                    (let src = str ''package '' @ pkgName @ str ''\<newline>type '' @ structName
                               @ str '' '' @ body @ str ''}''
                     in case format_Source src of
                          Inl err \<Rightarrow>
                            Inl (Error (str ''error formatting: '' @ err
                                        @ str '', was formatting\<newline>'' @ src))
                        | Inr formatted \<Rightarrow> Inr formatted))))"

section \<open>Values the decoder can produce, and maps that hold the same mapping\<close>

text \<open>The decoder never builds a \<open>[]map[string]interface{}\<close>.\<close>

fun plain :: "gvalue \<Rightarrow> bool" where
  "plain (GSlice xs) = list_all plain xs"
| "plain (GMap m) = list_all (\<lambda>kv. plain (snd kv)) m"
| "plain (GMapSlice ms) = False"
| "plain v = True"

text \<open>A Go map holds every key once, at every level of nesting.\<close>

fun unique_keys :: "gvalue \<Rightarrow> bool" where
  "unique_keys (GSlice xs) = list_all unique_keys xs"
| "unique_keys (GMap m) = (distinct (map fst m) \<and> list_all (\<lambda>kv. unique_keys (snd kv)) m)"
| "unique_keys (GMapSlice ms) =
     list_all (\<lambda>m. distinct (map fst m) \<and> list_all (\<lambda>kv. unique_keys (snd kv)) m) ms"
| "unique_keys v = True"

text \<open>
  Two values hold the same mapping when they differ at most in the order in which their
  maps, at any depth, list their keys.
\<close>

function (sequential) same_mapping :: "gvalue \<Rightarrow> gvalue \<Rightarrow> bool" where
  "same_mapping (GSlice xs) (GSlice ys) = list_all2 same_mapping xs ys"
| "same_mapping (GMap m) (GMap m') =
     (set (map fst m) = set (map fst m') \<and>
      list_all (\<lambda>k. same_mapping (index_map m k) (index_map m' k)) (map fst m))"
| "same_mapping (GMapSlice ms) (GMapSlice ms') =
     list_all2 (\<lambda>m m'. same_mapping (GMap m) (GMap m')) ms ms'"
| "same_mapping v v' = (v = v')"
  by pat_completeness auto

termination
proof -
  let ?sz = "size_list (size_prod (\<lambda>_. 0) size) :: gomap \<Rightarrow> nat"
  have at_key: "size (index_map m k) < Suc (?sz m)" for m k
    by (induction m) (auto simp: index_map_def)
  have in_list: "size x < Suc (size_list size xs)" if "x \<in> set xs" for x :: gvalue and xs
    using that by (induction xs) auto
  have in_slice: "?sz m < size_list ?sz ms" if "m \<in> set ms" for m ms
    using that by (induction ms) auto
  show ?thesis
    by (relation "measure (\<lambda>(v, v'). size v)") (simp_all add: at_key in_list in_slice)
qed

section \<open>The specification's description of names and tags\<close>

text \<open>
  The field namer in the specification's words, acronym fix-up enabled: split the key at
  the underscores; title-case each part, where only the first letter of a part is forced;
  put the last part in upper case when its lower-case form is one of id, url and dob;
  join the parts; replace every character that is no letter or digit (at position 0: no
  letter) with the underscore. These definitions do not use the functions of the model.
\<close>

function parts_spec :: "gostring \<Rightarrow> gostring list" where
  "parts_spec s =
     (if 95 \<in> set s
      then takeWhile (\<lambda>c. c \<noteq> 95) s # parts_spec (tl (dropWhile (\<lambda>c. c \<noteq> 95) s))
      else [s])"
  by pat_completeness auto

termination
proof (relation "measure length")
  show "wf (measure length)" by simp
next
  fix s :: gostring
  assume "95 \<in> set s"
  then have "dropWhile (\<lambda>c. c \<noteq> 95) s \<noteq> []" by simp
  then have "length (tl (dropWhile (\<lambda>c. c \<noteq> 95) s)) < length (dropWhile (\<lambda>c. c \<noteq> 95) s)"
    by simp
  also have "\<dots> \<le> length s" by (rule length_dropWhile_le)
  finally show "(tl (dropWhile (\<lambda>c. c \<noteq> 95) s), s) \<in> measure length" by simp
qed

declare parts_spec.simps [simp del]

definition first_letter_spec :: "(rune \<Rightarrow> rune) \<Rightarrow> gostring \<Rightarrow> gostring" where
  "first_letter_spec f s = map f (take 1 s) @ drop 1 s"

definition acronym_spec :: "unicode \<Rightarrow> gostring list \<Rightarrow> gostring list" where
  "acronym_spec U parts =
     butlast parts
     @ [if map (ToLower U) (last parts) \<in> {str ''id'', str ''url'', str ''dob''}
        then map (ToUpper U) (last parts) else last parts]"

definition replace_spec :: "unicode \<Rightarrow> gostring \<Rightarrow> gostring" where
  "replace_spec U a =
     map (\<lambda>i. if (if i = 0 then IsLetter U (a ! i) else IsLetter U (a ! i) \<or> IsDigit U (a ! i))
              then a ! i else 95)
       [0..<length a]"

definition fieldName_spec :: "unicode \<Rightarrow> gostring \<Rightarrow> gostring" where
  "fieldName_spec U key =
     replace_spec U
       (concat (acronym_spec U (map (first_letter_spec (ToTitle U)) (parts_spec key))))"

text \<open>
  The same description with the title-casing that the amended claim C6 states: in each
  part, the first character and every character that follows a separator is title-cased.
\<close>

definition title_words :: "unicode \<Rightarrow> gostring \<Rightarrow> gostring" where
  "title_words U p =
     map (\<lambda>i. if i = 0 \<or> isSeparator U (p ! (i - 1)) then ToTitle U (p ! i) else p ! i)
       [0..<length p]"

definition fieldName_words :: "unicode \<Rightarrow> gostring \<Rightarrow> gostring" where
  "fieldName_words U key =
     replace_spec U (concat (acronym_spec U (map (title_words U) (parts_spec key))))"

text \<open>
  The style renderer in the specification's words: \<open>None\<close> when the format is omitted,
  otherwise the rendered name (the key itself, or the field namer's identifier without
  fix-up with its first letter in lower case) followed by the comma and the suffix, if one
  is configured.
\<close>

definition renderTagFieldName_spec ::
  "unicode \<Rightarrow> Style \<Rightarrow> gostring \<Rightarrow> gostring \<Rightarrow> gostring option" where
  "renderTagFieldName_spec U style extra key =
     (if style = StyleNone then None
      else Some ((if style = StyleUnderscores then key
                  else first_letter_spec (ToLower U) (fmtFieldName U key False))
                 @ (if extra = [] then [] else str '','' @ extra)))"

definition tags_spec :: "unicode \<Rightarrow> config \<Rightarrow> gostring \<Rightarrow> (gostring \<times> gostring) list" where
  "tags_spec U cfg key =
     (case renderTagFieldName_spec U (bsonStyle cfg) (bsonExtra cfg) key of
        None \<Rightarrow> []
      | Some v \<Rightarrow> [(str ''bson'', v)])
     @ (case renderTagFieldName_spec U (jsonStyle cfg) (jsonExtra cfg) key of
          None \<Rightarrow> []
        | Some v \<Rightarrow> [(str ''json'', v)])"

fun join_spaces :: "gostring list \<Rightarrow> gostring" where
  "join_spaces [] = []"
| "join_spaces [x] = x"
| "join_spaces (x # y # ys) = x @ str '' '' @ join_spaces (y # ys)"

definition render_tags :: "(gostring \<times> gostring) list \<Rightarrow> gostring" where
  "render_tags tags =
     (if tags = [] then []
      else str ''`'' @ join_spaces (map (\<lambda>(label, v). label @ str '':\"'' @ v @ str ''\"'') tags)
           @ str ''`'')"

text \<open>
  A property of the title-case table that the second application of the field namer relies
  on: title-casing a code point that is already in title case changes nothing.
\<close>

definition title_idempotent :: "unicode \<Rightarrow> bool" where
  "title_idempotent U = (\<forall>r. ToTitle U (ToTitle U r) = ToTitle U r)"

section \<open>A concrete instance\<close>

text \<open>Tables with nothing beyond ASCII, and the values the flags have by default.\<close>

definition ascii_tables :: unicode where
  "ascii_tables =
     \<lparr>letter_tab = (\<lambda>r. False), digit_tab = (\<lambda>r. False), space_tab = (\<lambda>r. False),
      upper_tab = (\<lambda>r. r), lower_tab = (\<lambda>r. r), title_tab = (\<lambda>r. r)\<rparr>"


definition default_config :: config where
  "default_config =
     \<lparr>jsonStyle = StyleUnderscores, jsonExtra = [], bsonStyle = StyleNone, bsonExtra = []\<rparr>"

text \<open>A formatter that accepts every text unchanged, and one that rejects every text.\<close>

definition format_accept :: "gostring \<Rightarrow> gostring + gostring" where
  "format_accept src = Inr src"

definition format_reject :: "gostring \<Rightarrow> gostring + gostring" where
  "format_reject src = Inl (str ''expected declaration'')"

section \<open>Auxiliary facts\<close>

subsection \<open>The loop of generateTypes\<close>

lemma those_map_cong:
  "(\<And>x. x \<in> set xs \<Longrightarrow> f x = g x) \<Longrightarrow> those (map f xs) = those (map g xs)"
  by (induction xs) (auto split: option.splits)

lemma those_map_Some:
  "(\<And>x. x \<in> set xs \<Longrightarrow> f x \<noteq> None) \<Longrightarrow> those (map f xs) \<noteq> None"
  by (induction xs) (auto split: option.splits)

lemma generateField_Some:
  "typeForValue U cfg (index_map obj key) = Some valueType \<Longrightarrow>
   generateField U cfg obj depth key =
     map_option (fieldEntry U cfg key)
       (case index_map obj key of
          GMapSlice ms \<Rightarrow>
            (case ms of
               [] \<Rightarrow> None
             | m # rest \<Rightarrow>
                 map_option (\<lambda>t. str ''[]'' @ t @ str ''}'')
                   (generateTypes U cfg m (depth + 1)))
        | GMap m \<Rightarrow> map_option (\<lambda>t. t @ str ''}'') (generateTypes U cfg m (depth + 1))
        | _ \<Rightarrow> Some valueType)"
  by (simp add: generateField.simps)

lemma generateField_None:
  "typeForValue U cfg (index_map obj key) = None \<Longrightarrow> generateField U cfg obj depth key = None"
  by (simp add: generateField.simps)

subsection \<open>Decoded values\<close>

lemma plain_store:
  "plain (snd kv) \<Longrightarrow> list_all (\<lambda>kv. plain (snd kv)) m \<Longrightarrow>
   list_all (\<lambda>kv. plain (snd kv)) (store kv m)"
  by (induction kv m rule: store.induct) auto

lemma plain_fold_store:
  "list_all (\<lambda>kv. plain (snd kv)) kvs \<Longrightarrow> list_all (\<lambda>kv. plain (snd kv)) m \<Longrightarrow>
   list_all (\<lambda>kv. plain (snd kv)) (fold store kvs m)"
  by (induction kvs arbitrary: m) (auto simp: plain_store)

lemma plain_decode: "plain (decode doc)"
proof (induction doc rule: decode.induct)
  case (5 xs)
  then show ?case by (simp add: list_all_iff)
next
  case (6 members)
  have "list_all (\<lambda>kv. plain (snd kv)) (map (\<lambda>(k, v). (k, decode v)) members)"
    using 6 by (auto simp: list_all_iff)
  then show ?case by (simp add: plain_fold_store)
qed simp_all

lemma plain_index_map: "plain (GMap obj) \<Longrightarrow> plain (index_map obj key)"
  by (induction obj) (auto simp: index_map_def)

lemma no_panic:
  "plain (GMap obj) \<Longrightarrow> generateTypes U cfg obj depth \<noteq> None"
  "plain (GMap obj) \<Longrightarrow> generateField U cfg obj depth key \<noteq> None"
  "plain v \<Longrightarrow> typeForValue U cfg v \<noteq> None"
proof (induction U cfg obj depth and U cfg obj depth key and U cfg v
       rule: generateTypes_generateField_typeForValue.induct)
  case (1 U cfg obj depth)
  have "those (map (generateField U cfg obj depth) (sort (map fst obj))) \<noteq> None"
    by (rule those_map_Some) (rule 1(1) [OF _ 1(2)])
  then show ?case by (simp add: generateTypes.simps [of U cfg obj])
next
  case (2 U cfg obj depth key)
  have pv: "plain (index_map obj key)" using 2(4) by (rule plain_index_map)
  then obtain vt where vt: "typeForValue U cfg (index_map obj key) = Some vt"
    using 2(1) by auto
  show ?case
  proof (cases "index_map obj key")
    case (GMap m)
    have "generateTypes U cfg m (depth + 1) \<noteq> None"
      using vt GMap pv by (intro 2(2)) simp_all
    then show ?thesis using GMap by (simp add: generateField_Some [OF vt])
  next
    case (GMapSlice ms)
    then show ?thesis using pv by simp
  qed (simp_all add: generateField_Some [OF vt])
next
  case (3 U cfg objects)
  then show ?case by (cases objects) auto
qed simp_all

lemma decoded_object_renders:
  "\<exists>body. generateTypes U cfg (fold store (map (\<lambda>(k, v). (k, decode v)) members) []) depth
            = Some body"
  using no_panic(1) [of "fold store (map (\<lambda>(k, v). (k, decode v)) members) []" U cfg depth]
    plain_decode [of "JObject members"] by auto

lemma generate_array:
  "generate U cfg format_Source (Inr (JArray xs)) structName pkgName =
     Inl (Error (str ''unexpected type: []interface {}''))"
  by (simp add: generate_def str_def)

section \<open>The entry point\<close>

text \<open>
  Claim C1. A top-level JSON array whose first element is an object should be accepted
  and give the declaration of that first element. The decoder stores every array as
  \<open>[]interface{}\<close>, never as \<open>[]map[string]interface{}\<close>, so the branch of \<open>generate\<close>
  written for arrays is not taken: the document \<open>[{"a": 1}, {"a": 2}]\<close> is refused with
  the error of the default branch, while \<open>{"a": 1}\<close> alone is accepted. By
  \<open>generate_array\<close> every top-level array is refused in this way.
\<close>

theorem generate_array_of_objects_rejected:
  "generate ascii_tables default_config format_accept
     (Inr (JArray [JObject [(str ''a'', JNumber 1)], JObject [(str ''a'', JNumber 2)]]))
     (str ''Foo'') (str ''main'')
   = Inl (Error (str ''unexpected type: []interface {}''))
   \<and> generate ascii_tables default_config format_accept
     (Inr (JObject [(str ''a'', JNumber 1)])) (str ''Foo'') (str ''main'')
   = Inr (str ''package main\<newline>type Foo struct {\<newline>A float64`json:\"a\"`}'')"
  by code_simp

text \<open>
  Claim C2. An empty top-level array should fail with the error \<open>empty array\<close>, apart
  from the error for an unsupported shape. For the same reason as in C1 the document \<open>[]\<close>
  reaches the default branch and fails with the unsupported-shape error instead.
\<close>

theorem generate_empty_array_unexpected_type:
  "generate ascii_tables default_config format_accept (Inr (JArray [])) (str ''Foo'') (str ''main'')
   = Inl (Error (str ''unexpected type: []interface {}''))
   \<and> Error (str ''unexpected type: []interface {}'') \<noteq> Error (str ''empty array'')"
  by code_simp

text \<open>
  Claim C9. When the formatter rejects the assembled text \<open>src\<close> with a diagnostic,
  \<open>generate\<close> returns an error whose message holds the diagnostic and \<open>src\<close> itself.
  The text is assembled whenever the document is an object: by \<open>decoded_object_renders\<close>
  the body always exists then.
\<close>

theorem generate_formatting_error:
  assumes "decode doc = GMap result"
    and "generateTypes U cfg result 0 = Some body"
    and "src = str ''package '' @ pkgName @ str ''\<newline>type '' @ structName
               @ str '' '' @ body @ str ''}''"
    and "format_Source src = Inl diagnostic"
  shows "generate U cfg format_Source (Inr doc) structName pkgName =
           Inl (Error (str ''error formatting: '' @ diagnostic
                       @ str '', was formatting\<newline>'' @ src))"
  using assms by (simp add: generate_def)

theorem generate_formatting_error_witness:
  "decode (JObject [(str ''a'', JNumber 1)]) = GMap [(str ''a'', GFloat64 1)]
   \<and> generateTypes ascii_tables default_config [(str ''a'', GFloat64 1)] 0
       = Some (str ''struct {\<newline>A float64`json:\"a\"`'')
   \<and> format_reject (str ''package main\<newline>type Foo struct {\<newline>A float64`json:\"a\"`}'')
       = Inl (str ''expected declaration'')
   \<and> generate ascii_tables default_config format_reject
         (Inr (JObject [(str ''a'', JNumber 1)])) (str ''Foo'') (str ''main'')
       = Inl (Error (str ''error formatting: expected declaration, was formatting\<newline>package main\<newline>type Foo struct {\<newline>A float64`json:\"a\"`}''))"
proof -
  have doc: "decode (JObject [(str ''a'', JNumber 1)]) = GMap [(str ''a'', GFloat64 1)]"
    by simp
  have body: "generateTypes ascii_tables default_config [(str ''a'', GFloat64 1)] 0
                = Some (str ''struct {\<newline>A float64`json:\"a\"`'')"
    by code_simp
  have src: "str ''package main\<newline>type Foo struct {\<newline>A float64`json:\"a\"`}''
               = str ''package '' @ str ''main'' @ str ''\<newline>type '' @ str ''Foo''
                 @ str '' '' @ str ''struct {\<newline>A float64`json:\"a\"`'' @ str ''}''"
    by (simp add: str_def)
  have rejected:
    "format_reject (str ''package main\<newline>type Foo struct {\<newline>A float64`json:\"a\"`}'')
       = Inl (str ''expected declaration'')"
    by (simp add: format_reject_def)
  show ?thesis
    using generate_formatting_error [where format_Source = format_reject, OF doc body src rejected]
      doc body rejected
    by (simp add: str_def)
qed

section \<open>Arrays inside an object\<close>

lemma one_type_iff:
  "length (remdups ts) = 1 \<longleftrightarrow> ts \<noteq> [] \<and> (\<forall>t \<in> set ts. t = hd ts)"
proof
  assume "length (remdups ts) = 1"
  then have "card (set ts) = 1" by (simp add: length_remdups_card_conv)
  then obtain a where a: "set ts = {a}" by (auto simp: card_1_singleton_iff)
  then have "ts \<noteq> []" by auto
  moreover from this a have "hd ts = a" using hd_in_set [of ts] by auto
  ultimately show "ts \<noteq> [] \<and> (\<forall>t \<in> set ts. t = hd ts)" using a by auto
next
  assume r: "ts \<noteq> [] \<and> (\<forall>t \<in> set ts. t = hd ts)"
  then have "set ts = {hd ts}" using hd_in_set [of ts] by auto
  then have "card (set ts) = 1" by simp
  then show "length (remdups ts) = 1" by (simp add: length_remdups_card_conv)
qed

lemma typeForValue_one_type:
  assumes "xs \<noteq> []" and "\<forall>x \<in> set xs. TypeOf x = TypeOf (hd xs)"
  shows "typeForValue U cfg (GSlice xs) =
           map_option (\<lambda>t. str ''[]'' @ t) (typeForValue U cfg (hd xs))"
proof -
  have first: "hd (map TypeOf xs) = TypeOf (hd xs)"
    using assms(1) by (rule hd_map)
  have "\<forall>t \<in> set (map TypeOf xs). t = hd (map TypeOf xs)"
    unfolding first using assms(2) by fastforce
  then have "length (remdups (map TypeOf xs)) = 1"
    unfolding one_type_iff using assms(1) by blast
  then show ?thesis using assms(1) by (cases xs) simp_all
qed

lemma typeForValue_mixed:
  assumes "x \<in> set xs" and "y \<in> set xs" and "TypeOf x \<noteq> TypeOf y"
  shows "typeForValue U cfg (GSlice xs) = Some (str ''[]interface{}'')"
proof -
  have "length (remdups (map TypeOf xs)) \<noteq> 1"
  proof
    assume "length (remdups (map TypeOf xs)) = 1"
    then have "\<forall>t \<in> set (map TypeOf xs). t = hd (map TypeOf xs)"
      unfolding one_type_iff by simp
    then have "TypeOf x = hd (map TypeOf xs)" and "TypeOf y = hd (map TypeOf xs)"
      using assms by auto
    then show False using assms(3) by simp
  qed
  then show ?thesis by simp
qed

text \<open>
  Claim C4. For an array value, \<open>typeForValue\<close> returns \<open>[]interface{}\<close> when the array is
  empty; \<open>[]\<close> followed by the type of the first element when all elements have the same
  dynamic type (so \<open>[1, 2, 3]\<close> gives \<open>[]float64\<close>, and two objects with different fields
  give the shape of the first); \<open>[]interface{}\<close> when two elements differ in dynamic type
  (\<open>[1, "a"]\<close>); and \<open>[]interface{}\<close> when every element is null.
\<close>

theorem typeForValue_array:
  "typeForValue U cfg (GSlice []) = Some (str ''[]interface{}'')
   \<and> (xs \<noteq> [] \<and> (\<forall>x \<in> set xs. TypeOf x = TypeOf (hd xs)) \<longrightarrow>
        typeForValue U cfg (GSlice xs) =
          map_option (\<lambda>t. str ''[]'' @ t) (typeForValue U cfg (hd xs)))
   \<and> ((\<exists>x \<in> set xs. \<exists>y \<in> set xs. TypeOf x \<noteq> TypeOf y) \<longrightarrow>
        typeForValue U cfg (GSlice xs) = Some (str ''[]interface{}''))
   \<and> (xs \<noteq> [] \<and> (\<forall>x \<in> set xs. x = GNil) \<longrightarrow>
        typeForValue U cfg (GSlice xs) = Some (str ''[]interface{}''))
   \<and> typeForValue U cfg (GSlice [GFloat64 1, GFloat64 2, GFloat64 3]) = Some (str ''[]float64'')
   \<and> typeForValue U cfg (GSlice [GFloat64 1, GString (str ''a'')]) = Some (str ''[]interface{}'')
   \<and> typeForValue U cfg (GSlice [GMap m, GMap m']) =
        map_option (\<lambda>t. str ''[]'' @ t) (typeForValue U cfg (GMap m))"
proof (intro conjI impI)
  show "typeForValue U cfg (GSlice []) = Some (str ''[]interface{}'')" by simp
  show "typeForValue U cfg (GSlice xs) =
          map_option (\<lambda>t. str ''[]'' @ t) (typeForValue U cfg (hd xs))"
    if "xs \<noteq> [] \<and> (\<forall>x \<in> set xs. TypeOf x = TypeOf (hd xs))"
    by (rule typeForValue_one_type) (use that in blast)+
  show "typeForValue U cfg (GSlice xs) = Some (str ''[]interface{}'')"
    if "\<exists>x \<in> set xs. \<exists>y \<in> set xs. TypeOf x \<noteq> TypeOf y"
    using that typeForValue_mixed by blast
  show "typeForValue U cfg (GSlice xs) = Some (str ''[]interface{}'')"
    if nils: "xs \<noteq> [] \<and> (\<forall>x \<in> set xs. x = GNil)"
  proof -
    have h: "hd xs = GNil" using nils hd_in_set [of xs] by auto
    have "\<forall>x \<in> set xs. TypeOf x = TypeOf (hd xs)" using nils h by fastforce
    with nils have "typeForValue U cfg (GSlice xs) =
                 map_option (\<lambda>t. str ''[]'' @ t) (typeForValue U cfg (hd xs))"
      by (intro typeForValue_one_type) blast+
    then show ?thesis unfolding h by (simp add: str_def)
  qed
  show "typeForValue U cfg (GSlice [GFloat64 1, GFloat64 2, GFloat64 3]) = Some (str ''[]float64'')"
    by (simp add: str_def)
  show "typeForValue U cfg (GSlice [GFloat64 1, GString (str ''a'')]) = Some (str ''[]interface{}'')"
    by simp
  show "typeForValue U cfg (GSlice [GMap m, GMap m']) =
          map_option (\<lambda>t. str ''[]'' @ t) (typeForValue U cfg (GMap m))"
    by simp
qed


theorem typeForValue_array_witness:
  "[GNil, GNil] \<noteq> [] \<and> typeForValue ascii_tables default_config (GSlice [GNil, GNil])
     = Some (str ''[]interface{}'')"
  using typeForValue_array [of ascii_tables default_config "[GNil, GNil]"]
  by simp

section \<open>Properties of the field namer\<close>

lemma strings_Split_nonempty: "strings_Split s \<noteq> []"
  by (induction s) (auto split: list.splits)

lemma concat_strings_Split: "concat (strings_Split s) = filter (\<lambda>c. c \<noteq> 95) s"
  by (induction s) (auto split: list.splits)

lemma strings_Split_no_underscore: "95 \<notin> set s \<Longrightarrow> strings_Split s = [s]"
  by (induction s) auto

lemma length_Title_from: "length (Title_from U prev s) = length s"
  by (induction s arbitrary: prev) auto

lemma length_fixRunes: "length (fixRunes U i s) = length s"
  by (induction s arbitrary: i) (auto simp: Let_def)

lemma length_concat_Title:
  "length (concat (map (strings_Title U) ps)) = length (concat ps)"
  by (induction ps) (auto simp: strings_Title_def length_Title_from)

lemma update_last: "ps \<noteq> [] \<Longrightarrow> ps[length ps - 1 := x] = butlast ps @ [x]"
  by (cases ps rule: rev_cases) simp_all

lemma length_concat_update_last:
  assumes "ps \<noteq> []" and "length x = length (last ps)"
  shows "length (concat (ps[length ps - 1 := x])) = length (concat ps)"
proof -
  have "length (concat (butlast ps @ [x])) = length (concat (butlast ps @ [last ps]))"
    using assms(2) by simp
  then show ?thesis
    unfolding update_last [OF assms(1)] append_butlast_last_id [OF assms(1)] .
qed

lemma length_fmtFieldName:
  "length (fmtFieldName U s fixUpper) = length (filter (\<lambda>c. c \<noteq> 95) s)"
proof -
  let ?ps = "map (strings_Title U) (strings_Split s)"
  have ne: "?ps \<noteq> []" by (simp add: strings_Split_nonempty)
  have plain: "length (concat ?ps) = length (filter (\<lambda>c. c \<noteq> 95) s)"
    by (simp add: length_concat_Title concat_strings_Split)
  have fixed: "length (concat (?ps[length ?ps - 1 := strings_ToUpper U (?ps ! (length ?ps - 1))]))
                 = length (filter (\<lambda>c. c \<noteq> 95) s)"
    using length_concat_update_last [OF ne, of "strings_ToUpper U (last ?ps)"] plain ne
    by (simp add: strings_ToUpper_def last_conv_nth)
  show ?thesis
    using plain fixed ne
    by (simp add: fmtFieldName_def Let_def strings_Join_def length_fixRunes)
qed



lemma strings_Split_parts: "p \<in> set (strings_Split s) \<Longrightarrow> set p \<subseteq> set s"
proof -
  assume "p \<in> set (strings_Split s)"
  then have "set p \<subseteq> set (concat (strings_Split s))" by auto
  then show ?thesis by (auto simp: concat_strings_Split)
qed








lemma letter_or_digit_no_separator:
  "IsLetter U c \<or> IsDigit U c \<Longrightarrow> \<not> isSeparator U c"
  by (auto simp: isSeparator_def IsLetter_def IsDigit_def split: if_splits)

lemma Title_from_unchanged:
  "\<not> isSeparator U prev \<Longrightarrow> \<forall>c \<in> set cs. \<not> isSeparator U c \<Longrightarrow> Title_from U prev cs = cs"
  by (induction cs arbitrary: prev) auto

lemma fixRunes_no_underscore:
  "95 \<notin> set (fixRunes U i s) \<Longrightarrow>
   fixRunes U i s = s \<and> (\<forall>c \<in> set s. IsLetter U c \<or> IsDigit U c)
   \<and> (i = 0 \<longrightarrow> s \<noteq> [] \<longrightarrow> IsLetter U (hd s))"
proof (induction s arbitrary: i)
  case Nil
  then show ?case by simp
next
  case (Cons c cs)
  from Cons.prems have tail: "95 \<notin> set (fixRunes U (i + 1) cs)"
    by (simp add: Let_def)
  from Cons.prems have ok: "if i = 0 then IsLetter U c else IsLetter U c \<or> IsDigit U c"
    by (auto simp: Let_def split: if_splits)
  from Cons.IH [OF tail] ok show ?case
    by (auto simp: Let_def split: if_splits)
qed

lemma hd_concat_Title:
  "concat (map (strings_Title U) ps) \<noteq> [] \<Longrightarrow>
   \<exists>r. hd (concat (map (strings_Title U) ps)) = ToTitle U r"
proof (induction ps)
  case Nil
  then show ?case by simp
next
  case (Cons p ps)
  show ?case
  proof (cases p)
    case Nil
    then show ?thesis using Cons by (simp add: strings_Title_def)
  next
    case (Cons r rs)
    have "isSeparator U 32"
      by (simp add: isSeparator_def ascii_digit_def ascii_lower_def ascii_upper_def)
    then show ?thesis using Cons by (auto simp: strings_Title_def)
  qed
qed

lemma fmtFieldName_False:
  "fmtFieldName U s False = fixRunes U 0 (concat (map (strings_Title U) (strings_Split s)))"
  by (simp add: fmtFieldName_def Let_def strings_Join_def)

lemma fmtFieldName_fixed_point:
  assumes idem: "title_idempotent U"
    and clean: "95 \<notin> set (fmtFieldName U s False)"
  shows "fmtFieldName U (fmtFieldName U s False) False = fmtFieldName U s False"
proof -
  let ?a = "concat (map (strings_Title U) (strings_Split s))"
  let ?t = "fmtFieldName U s False"
  have t: "?t = fixRunes U 0 ?a" by (rule fmtFieldName_False)
  from clean have "95 \<notin> set (fixRunes U 0 ?a)" unfolding t .
  from fixRunes_no_underscore [OF this]
  have same: "fixRunes U 0 ?a = ?a"
    and ok: "\<forall>c \<in> set ?a. IsLetter U c \<or> IsDigit U c"
    and first: "?a \<noteq> [] \<longrightarrow> IsLetter U (hd ?a)"
    by blast+
  have ta: "?t = ?a" using t same by simp
  have title: "strings_Title U ?a = ?a"
  proof (cases ?a)
    case Nil
    show ?thesis unfolding Nil by (simp add: strings_Title_def)
  next
    case (Cons c cs)
    then have "?a \<noteq> []" by simp
    from hd_concat_Title [OF this] obtain r where "hd ?a = ToTitle U r" by blast
    then have c: "ToTitle U c = c"
      using idem Cons by (simp add: title_idempotent_def)
    have "\<forall>x \<in> set (c # cs). \<not> isSeparator U x"
      using ok letter_or_digit_no_separator unfolding Cons by blast
    then have "\<not> isSeparator U c" and "\<forall>x \<in> set cs. \<not> isSeparator U x"
      by simp_all
    then have "Title_from U c cs = cs" by (rule Title_from_unchanged)
    moreover have "isSeparator U 32"
      by (simp add: isSeparator_def ascii_digit_def ascii_lower_def ascii_upper_def)
    ultimately show ?thesis unfolding Cons using c by (simp add: strings_Title_def)
  qed
  have "95 \<notin> set ?a" using clean ta by simp
  then have "strings_Split ?a = [?a]" by (rule strings_Split_no_underscore)
  then have "fmtFieldName U ?a False = fixRunes U 0 ?a"
    using title by (simp add: fmtFieldName_False)
  then show ?thesis using same ta by simp
qed

lemma fmtFieldName_shrinks:
  assumes "95 \<in> set t"
  shows "fmtFieldName U t fixUpper \<noteq> t"
proof -
  have "length (filter (\<lambda>c. c \<noteq> 95) t) < length t"
    using assms by (intro length_filter_less) auto
  then have "length (fmtFieldName U t fixUpper) < length t"
    by (simp add: length_fmtFieldName)
  then show ?thesis by auto
qed

text \<open>
  Claim C8, as amended. With the fix-up disabled, applying \<open>fmtFieldName\<close> to its own
  result changes nothing exactly when that result holds no underscore, given that
  title-casing is idempotent on code points. A placeholder underscore in the first result
  is a separator for the second application, which drops it.
\<close>

theorem fmtFieldName_idempotent_iff:
  assumes "title_idempotent U"
  shows "fmtFieldName U (fmtFieldName U s False) False = fmtFieldName U s False
         \<longleftrightarrow> 95 \<notin> set (fmtFieldName U s False)"
  using assms fmtFieldName_fixed_point fmtFieldName_shrinks by blast

lemma title_idempotent_ascii: "title_idempotent ascii_tables"
  by (auto simp: title_idempotent_def ToTitle_def ascii_tables_def ascii_lower_def)

theorem fmtFieldName_idempotent_iff_witness:
  "title_idempotent ascii_tables
   \<and> 95 \<notin> set (fmtFieldName ascii_tables (str ''created_at'') False)
   \<and> fmtFieldName ascii_tables (fmtFieldName ascii_tables (str ''created_at'') False) False
       = fmtFieldName ascii_tables (str ''created_at'') False"
proof -
  have clean: "95 \<notin> set (fmtFieldName ascii_tables (str ''created_at'') False)"
    by code_simp
  with fmtFieldName_idempotent_iff [OF title_idempotent_ascii, of "str ''created_at''"]
  show ?thesis using title_idempotent_ascii by blast
qed

text \<open>
  The claim C8 as stated fails at the key \<open>a-b\<close>: its name is \<open>A_B\<close>, and the name of
  \<open>A_B\<close> is \<open>AB\<close>.
\<close>

theorem fmtFieldName_not_idempotent:
  "fmtFieldName ascii_tables (fmtFieldName ascii_tables (str ''a-b'') False) False = str ''AB''
   \<and> fmtFieldName ascii_tables (str ''a-b'') False = str ''A_B''
   \<and> str ''AB'' \<noteq> str ''A_B''"
  by code_simp

lemma isFixup_iff: "isFixup s \<longleftrightarrow> s \<in> {str ''id'', str ''url'', str ''dob''}"
  by (simp add: isFixup_def uppercaseFixups_def str_def)

lemma strings_Split_parts_spec: "strings_Split s = parts_spec s"
proof (induction s)
  case Nil
  show ?case by (simp add: parts_spec.simps [of "[]"])
next
  case (Cons c cs)
  show ?case
  proof (cases "c = 95")
    case True
    show ?thesis using Cons unfolding True by (simp add: parts_spec.simps [of "95 # cs"])
  next
    case False
    show ?thesis
    proof (cases "95 \<in> set cs")
      case True
      then show ?thesis
        using False Cons
        by (simp add: parts_spec.simps [of "c # cs"] parts_spec.simps [of cs])
    next
      case no: False
      then show ?thesis
        using False Cons
        by (simp add: parts_spec.simps [of "c # cs"] parts_spec.simps [of cs])
    qed
  qed
qed

lemma nth_Title_from:
  "i < length p \<Longrightarrow>
   Title_from U prev p ! i =
     (if isSeparator U (if i = 0 then prev else p ! (i - 1)) then ToTitle U (p ! i) else p ! i)"
proof (induction p arbitrary: prev i)
  case Nil
  then show ?case by simp
next
  case (Cons c cs)
  show ?case
  proof (cases i)
    case 0
    then show ?thesis by simp
  next
    case (Suc j)
    then have "j < length cs" using Cons.prems by simp
    from Cons.IH [OF this, of c] show ?thesis
      using Suc by (cases j) simp_all
  qed
qed

lemma isSeparator_space: "isSeparator U 32"
  by (simp add: isSeparator_def ascii_digit_def ascii_lower_def ascii_upper_def)

lemma strings_Title_title_words: "strings_Title U p = title_words U p"
proof (rule nth_equalityI)
  show "length (strings_Title U p) = length (title_words U p)"
    by (simp add: strings_Title_def title_words_def length_Title_from)
next
  fix i assume "i < length (strings_Title U p)"
  then have i: "i < length p" by (simp add: strings_Title_def length_Title_from)
  then show "strings_Title U p ! i = title_words U p ! i"
    by (simp add: strings_Title_def title_words_def nth_Title_from isSeparator_space)
qed

lemma nth_fixRunes:
  "j < length a \<Longrightarrow>
   fixRunes U i a ! j =
     (if (if i + j = 0 then IsLetter U (a ! j) else IsLetter U (a ! j) \<or> IsDigit U (a ! j))
      then a ! j else 95)"
proof (induction a arbitrary: i j)
  case Nil
  then show ?case by simp
next
  case (Cons c cs)
  show ?case
  proof (cases j)
    case 0
    then show ?thesis by (auto simp: Let_def)
  next
    case (Suc k)
    then have "k < length cs" using Cons.prems by simp
    from Cons.IH [OF this, of "i + 1"] show ?thesis
      using Suc by (simp add: Let_def)
  qed
qed

lemma fixRunes_replace_spec: "fixRunes U 0 a = replace_spec U a"
proof (rule nth_equalityI)
  show "length (fixRunes U 0 a) = length (replace_spec U a)"
    by (simp add: replace_spec_def length_fixRunes)
next
  fix j assume "j < length (fixRunes U 0 a)"
  then have "j < length a" by (simp add: length_fixRunes)
  then show "fixRunes U 0 a ! j = replace_spec U a ! j"
    by (auto simp: replace_spec_def nth_fixRunes)
qed

lemma fix_last_acronym_spec:
  assumes "ps \<noteq> []"
  shows "(if isFixup (strings_ToLower U (ps ! (length ps - 1)))
          then ps[length ps - 1 := strings_ToUpper U (ps ! (length ps - 1))] else ps)
         = acronym_spec U ps"
proof -
  have last: "ps ! (length ps - 1) = last ps"
    using assms by (simp add: last_conv_nth)
  have whole: "butlast ps @ [last ps] = ps"
    using assms by (rule append_butlast_last_id)
  show ?thesis
    unfolding last update_last [OF assms] isFixup_iff acronym_spec_def
      strings_ToLower_def strings_ToUpper_def
    using whole by simp
qed

lemma fmtFieldName_words: "fmtFieldName U key True = fieldName_words U key"
proof -
  let ?ps = "map (strings_Title U) (strings_Split key)"
  have ne: "?ps \<noteq> []" by (simp add: strings_Split_nonempty)
  have "fmtFieldName U key True = fixRunes U 0 (concat (acronym_spec U ?ps))"
    unfolding fmtFieldName_def Let_def strings_Join_def
    using ne fix_last_acronym_spec [OF ne, of U] by simp
  also have "?ps = map (title_words U) (parts_spec key)"
    by (simp add: strings_Split_parts_spec strings_Title_title_words)
  finally show ?thesis
    by (simp add: fieldName_words_def fixRunes_replace_spec)
qed

lemma title_words_first_letter:
  assumes "\<forall>c \<in> set p. \<not> isSeparator U c"
  shows "title_words U p = first_letter_spec (ToTitle U) p"
proof (cases p)
  case Nil
  then show ?thesis by (simp add: title_words_def first_letter_spec_def)
next
  case (Cons c cs)
  have "Title_from U c cs = cs"
    using assms unfolding Cons by (intro Title_from_unchanged) simp_all
  then have "strings_Title U p = ToTitle U c # cs"
    unfolding Cons by (simp add: strings_Title_def isSeparator_space)
  then show ?thesis
    unfolding Cons by (simp add: strings_Title_title_words [symmetric] first_letter_spec_def)
qed

lemma fmtFieldName_first_letters:
  assumes "\<forall>c \<in> set key. \<not> isSeparator U c"
  shows "fmtFieldName U key True = fieldName_spec U key"
proof -
  have "title_words U p = first_letter_spec (ToTitle U) p" if "p \<in> set (parts_spec key)" for p
  proof (rule title_words_first_letter)
    have "set p \<subseteq> set key"
      using that strings_Split_parts [of p key] by (simp add: strings_Split_parts_spec)
    then show "\<forall>c \<in> set p. \<not> isSeparator U c" using assms by blast
  qed
  then have parts: "map (title_words U) (parts_spec key)
               = map (first_letter_spec (ToTitle U)) (parts_spec key)"
    by (intro map_cong refl)
  show ?thesis
    unfolding fmtFieldName_words fieldName_words_def fieldName_spec_def parts ..
qed

text \<open>
  Claim C6, as amended. With the acronym fix-up enabled, \<open>fmtFieldName\<close> splits the key at
  the underscores, title-cases in each part the first character and every character that
  follows a separator, puts the last part in upper case exactly when its lower-case form
  is id, url or dob, joins the parts and replaces what an identifier cannot hold. For a
  key without separator characters this is the specification's description, in which only
  the first letter of each part is title-cased. So \<open>user_id\<close> gives \<open>UserID\<close>,
  \<open>site_url\<close> gives \<open>SiteURL\<close> and \<open>name\<close> gives \<open>Name\<close>, whatever the tables hold
  beyond ASCII.
\<close>

theorem fmtFieldName_acronyms:
  "fmtFieldName U key True = fieldName_words U key
   \<and> ((\<forall>c \<in> set key. \<not> isSeparator U c) \<longrightarrow> fmtFieldName U key True = fieldName_spec U key)
   \<and> fmtFieldName U (str ''user_id'') True = str ''UserID''
   \<and> fmtFieldName U (str ''site_url'') True = str ''SiteURL''
   \<and> fmtFieldName U (str ''name'') True = str ''Name''"
proof (intro conjI impI)
  show "fmtFieldName U key True = fieldName_words U key"
    by (rule fmtFieldName_words)
  show "fmtFieldName U key True = fieldName_spec U key" if "\<forall>c \<in> set key. \<not> isSeparator U c"
    using that by (rule fmtFieldName_first_letters)
  show "fmtFieldName U (str ''user_id'') True = str ''UserID''"
    by (simp add: fmtFieldName_def str_def strings_Title_def strings_Join_def isSeparator_def
        ToTitle_def ascii_lower_def ascii_upper_def ascii_digit_def strings_ToLower_def
        strings_ToUpper_def ToLower_def ToUpper_def isFixup_def uppercaseFixups_def
        IsLetter_def IsDigit_def)
  show "fmtFieldName U (str ''site_url'') True = str ''SiteURL''"
    by (simp add: fmtFieldName_def str_def strings_Title_def strings_Join_def isSeparator_def
        ToTitle_def ascii_lower_def ascii_upper_def ascii_digit_def strings_ToLower_def
        strings_ToUpper_def ToLower_def ToUpper_def isFixup_def uppercaseFixups_def
        IsLetter_def IsDigit_def)
  show "fmtFieldName U (str ''name'') True = str ''Name''"
    by (simp add: fmtFieldName_def str_def strings_Title_def strings_Join_def isSeparator_def
        ToTitle_def ascii_lower_def ascii_upper_def ascii_digit_def strings_ToLower_def
        strings_ToUpper_def ToLower_def ToUpper_def isFixup_def uppercaseFixups_def
        IsLetter_def IsDigit_def)
qed

theorem fmtFieldName_acronyms_witness:
  "fieldName_spec ascii_tables (str ''gravatar_id'') = str ''GravatarID''
   \<and> fmtFieldName ascii_tables (str ''gravatar_id'') True = str ''GravatarID''
   \<and> fieldName_words ascii_tables (str ''foo bar_url'') = str ''Foo_BarURL''
   \<and> fmtFieldName ascii_tables (str ''foo bar_url'') True = str ''Foo_BarURL''"
proof -
  have no_separator: "\<forall>c \<in> set (str ''gravatar_id''). \<not> isSeparator ascii_tables c"
    by (simp add: str_def isSeparator_def ascii_digit_def ascii_lower_def ascii_upper_def)
  have spec: "fieldName_spec ascii_tables (str ''gravatar_id'') = str ''GravatarID''"
    by code_simp
  have words: "fieldName_words ascii_tables (str ''foo bar_url'') = str ''Foo_BarURL''"
    by code_simp
  from fmtFieldName_acronyms [of ascii_tables "str ''gravatar_id''"] no_separator
  have "fmtFieldName ascii_tables (str ''gravatar_id'') True
          = fieldName_spec ascii_tables (str ''gravatar_id'')"
    by blast
  moreover from fmtFieldName_acronyms [of ascii_tables "str ''foo bar_url''"]
  have "fmtFieldName ascii_tables (str ''foo bar_url'') True
          = fieldName_words ascii_tables (str ''foo bar_url'')"
    by blast
  ultimately show ?thesis using spec words by simp
qed

text \<open>
  The claim C6 as the specification words it fails at the key \<open>foo bar\<close>: title-casing
  only the first letter of the part gives \<open>Foo_bar\<close>, and the code gives \<open>Foo_Bar\<close>.
\<close>

theorem fmtFieldName_titles_every_word:
  "fmtFieldName ascii_tables (str ''foo bar'') True = str ''Foo_Bar''
   \<and> fieldName_spec ascii_tables (str ''foo bar'') = str ''Foo_bar''
   \<and> fmtFieldName ascii_tables (str ''foo bar'') True
       \<noteq> fieldName_spec ascii_tables (str ''foo bar'')"
  by code_simp

section \<open>Struct tags\<close>

lemma styles_distinct:
  "StyleUnderscores \<noteq> StyleCamelCase" "StyleUnderscores \<noteq> StyleNone"
  "StyleCamelCase \<noteq> StyleNone" "StyleCamelCase \<noteq> StyleUnderscores"
  "StyleNone \<noteq> StyleUnderscores" "StyleNone \<noteq> StyleCamelCase"
  by (simp_all add: StyleUnderscores_def StyleCamelCase_def StyleNone_def str_def)

lemma lowerFirst_first_letter: "lowerFirst U s = map (ToLower U) (take 1 s) @ drop 1 s"
  by (cases s) (simp_all add: lowerFirst_def)

lemma tagFieldName_spec:
  "IsValidStyle style \<Longrightarrow>
   renderTagFieldName_spec U style extra key =
     (if style = StyleNone then None else Some (tagFieldName U style extra key))"
  by (auto simp: IsValidStyle_def renderTagFieldName_spec_def tagFieldName_def styles_distinct
      lowerFirst_first_letter first_letter_spec_def)

lemma fieldTags_entries:
  "fieldTags U cfg key =
     render_tags
       ((if bsonStyle cfg = StyleNone then []
         else [(str ''bson'', tagFieldName U (bsonStyle cfg) (bsonExtra cfg) key)])
        @ (if jsonStyle cfg = StyleNone then []
           else [(str ''json'', tagFieldName U (jsonStyle cfg) (jsonExtra cfg) key)]))"
  by (simp add: fieldTags_def render_tags_def str_def)

text \<open>
  Claim C7. The tag text that \<open>generateTypes\<close> appends to a field lists the formats one by
  one, bson before json, and a format with style none is left out. For each format on its
  own, a valid style renders as the specification says: the key itself with style
  underscores, and with style camelcase the field namer's identifier without fix-up with
  its first letter in lower case and the rest unchanged (\<open>created_at\<close> gives
  \<open>createdAt\<close>); a non-empty extra follows the name after a comma.
\<close>

theorem fieldTags_styles:
  "fieldTags U cfg key =
     render_tags
       ((if bsonStyle cfg = StyleNone then []
         else [(str ''bson'', tagFieldName U (bsonStyle cfg) (bsonExtra cfg) key)])
        @ (if jsonStyle cfg = StyleNone then []
           else [(str ''json'', tagFieldName U (jsonStyle cfg) (jsonExtra cfg) key)]))
   \<and> (IsValidStyle style \<longrightarrow>
        renderTagFieldName_spec U style extra key =
          (if style = StyleNone then None else Some (tagFieldName U style extra key)))
   \<and> (IsValidStyle (jsonStyle cfg) \<and> IsValidStyle (bsonStyle cfg) \<longrightarrow>
        fieldTags U cfg key = render_tags (tags_spec U cfg key))
   \<and> tagFieldName U StyleUnderscores extra key
       = key @ (if extra = [] then [] else str '','' @ extra)
   \<and> tagFieldName U StyleCamelCase extra key
       = map (ToLower U) (take 1 (fmtFieldName U key False)) @ drop 1 (fmtFieldName U key False)
         @ (if extra = [] then [] else str '','' @ extra)
   \<and> tagFieldName U StyleUnderscores [] (str ''created_at'') = str ''created_at''
   \<and> tagFieldName U StyleCamelCase [] (str ''created_at'') = str ''createdAt''
   \<and> tagFieldName U StyleCamelCase (str ''omitempty'') (str ''created_at'')
       = str ''createdAt,omitempty''"
proof (intro conjI impI)
  show "fieldTags U cfg key =
     render_tags
       ((if bsonStyle cfg = StyleNone then []
         else [(str ''bson'', tagFieldName U (bsonStyle cfg) (bsonExtra cfg) key)])
        @ (if jsonStyle cfg = StyleNone then []
           else [(str ''json'', tagFieldName U (jsonStyle cfg) (jsonExtra cfg) key)]))"
    by (rule fieldTags_entries)
  show "renderTagFieldName_spec U style extra key =
          (if style = StyleNone then None else Some (tagFieldName U style extra key))"
    if "IsValidStyle style"
    using that by (rule tagFieldName_spec)
  show "fieldTags U cfg key = render_tags (tags_spec U cfg key)"
    if "IsValidStyle (jsonStyle cfg) \<and> IsValidStyle (bsonStyle cfg)"
    using that by (simp add: fieldTags_entries tags_spec_def tagFieldName_spec)
  show underscores: "tagFieldName U StyleUnderscores extra key
       = key @ (if extra = [] then [] else str '','' @ extra)" for extra key
    by (simp add: tagFieldName_def)
  show camel: "tagFieldName U StyleCamelCase extra key
       = map (ToLower U) (take 1 (fmtFieldName U key False)) @ drop 1 (fmtFieldName U key False)
         @ (if extra = [] then [] else str '','' @ extra)" for extra key
    by (simp add: tagFieldName_def styles_distinct lowerFirst_first_letter)
  have name: "fmtFieldName U (str ''created_at'') False = str ''CreatedAt''"
    by (simp add: fmtFieldName_def str_def strings_Title_def strings_Join_def
        isSeparator_def ToTitle_def ascii_lower_def ascii_upper_def ascii_digit_def
        IsLetter_def IsDigit_def)
  show "tagFieldName U StyleUnderscores [] (str ''created_at'') = str ''created_at''"
    by (simp add: underscores)
  show "tagFieldName U StyleCamelCase [] (str ''created_at'') = str ''createdAt''"
    unfolding camel name by (simp add: str_def ToLower_def ascii_upper_def)
  show "tagFieldName U StyleCamelCase (str ''omitempty'') (str ''created_at'')
          = str ''createdAt,omitempty''"
    unfolding camel name by (simp add: str_def ToLower_def ascii_upper_def)
qed

theorem fieldTags_styles_witness:
  "IsValidStyle StyleCamelCase \<and> IsValidStyle StyleUnderscores
   \<and> fieldTags ascii_tables
        \<lparr>jsonStyle = StyleCamelCase, jsonExtra = str ''omitempty'',
         bsonStyle = StyleUnderscores, bsonExtra = []\<rparr> (str ''created_at'')
       = str ''`bson:\"created_at\" json:\"createdAt,omitempty\"`''
   \<and> renderTagFieldName_spec ascii_tables StyleCamelCase [] (str ''user_id'')
       = Some (str ''userId'')
   \<and> tagFieldName ascii_tables StyleCamelCase [] (str ''user_id'') = str ''userId''"
proof -
  let ?cfg = "\<lparr>jsonStyle = StyleCamelCase, jsonExtra = str ''omitempty'',
                bsonStyle = StyleUnderscores, bsonExtra = []\<rparr>"
  have valid: "IsValidStyle StyleCamelCase" "IsValidStyle StyleUnderscores"
    by (simp_all add: IsValidStyle_def)
  have spec: "render_tags (tags_spec ascii_tables ?cfg (str ''created_at''))
                = str ''`bson:\"created_at\" json:\"createdAt,omitempty\"`''"
    by code_simp
  have rendered: "renderTagFieldName_spec ascii_tables StyleCamelCase [] (str ''user_id'')
                = Some (str ''userId'')"
    by code_simp
  have "IsValidStyle (jsonStyle ?cfg) \<and> IsValidStyle (bsonStyle ?cfg) \<longrightarrow>
        fieldTags ascii_tables ?cfg (str ''created_at'')
          = render_tags (tags_spec ascii_tables ?cfg (str ''created_at''))"
    using fieldTags_styles [of ascii_tables ?cfg "str ''created_at''" StyleCamelCase "[]"]
    by blast
  then have tags: "fieldTags ascii_tables ?cfg (str ''created_at'')
          = str ''`bson:\"created_at\" json:\"createdAt,omitempty\"`''"
    using valid spec by simp
  have "IsValidStyle StyleCamelCase \<longrightarrow>
        renderTagFieldName_spec ascii_tables StyleCamelCase [] (str ''user_id'')
          = (if StyleCamelCase = StyleNone then None
             else Some (tagFieldName ascii_tables StyleCamelCase [] (str ''user_id'')))"
    using fieldTags_styles [of ascii_tables ?cfg "str ''user_id''" StyleCamelCase "[]"]
    by blast
  then have "tagFieldName ascii_tables StyleCamelCase [] (str ''user_id'') = str ''userId''"
    using valid rendered by (simp add: styles_distinct)
  with valid tags rendered show ?thesis by blast
qed

section \<open>The depth parameter\<close>

lemma depth_irrelevant:
  "generateTypes U cfg obj depth = generateTypes U cfg obj depth'"
  "generateField U cfg obj depth key = generateField U cfg obj depth' key"
  "typeForValue U cfg v = typeForValue U cfg v"
proof (induction U cfg obj depth and U cfg obj depth key and U cfg v
       arbitrary: depth' and depth' and rule: generateTypes_generateField_typeForValue.induct)
  case (1 U cfg obj depth)
  have "those (map (generateField U cfg obj depth) (sort (map fst obj)))
      = those (map (generateField U cfg obj depth') (sort (map fst obj)))"
    by (rule those_map_cong) (rule 1)
  then show ?case by (simp add: generateTypes.simps [of U cfg obj])
next
  case (2 U cfg obj depth key)
  show ?case
  proof (cases "typeForValue U cfg (index_map obj key)")
    case None
    then show ?thesis by (simp add: generateField_None)
  next
    case (Some valueType)
    show ?thesis
    proof (cases "index_map obj key")
      case (GMap m)
      have "generateTypes U cfg m (depth + 1) = generateTypes U cfg m (depth' + 1)"
        using Some GMap by (rule 2(2))
      then show ?thesis using GMap by (simp add: generateField_Some [OF Some])
    next
      case (GMapSlice ms)
      show ?thesis
      proof (cases ms)
        case Nil
        then show ?thesis using GMapSlice by (simp add: generateField_Some [OF Some])
      next
        case (Cons m rest)
        have "generateTypes U cfg m (depth + 1) = generateTypes U cfg m (depth' + 1)"
          using Some GMapSlice Cons by (rule 2(3))
        then show ?thesis
          using GMapSlice Cons by (simp add: generateField_Some [OF Some])
      qed
    qed (simp_all add: generateField_Some [OF Some])
  qed
qed simp_all

text \<open>
  Claim C10. The depth passed to \<open>generateTypes\<close> has no effect on its result, and so
  the nested-object path of \<open>typeForValue\<close>, which starts again at depth 0, gives the same
  text as the recursion of \<open>generateTypes\<close> at depth + 1.
\<close>

theorem generateTypes_depth_irrelevant:
  "generateTypes U cfg obj d1 = generateTypes U cfg obj d2
   \<and> typeForValue U cfg (GMap obj) =
       map_option (\<lambda>t. t @ str ''}'') (generateTypes U cfg obj (d + 1))"
  using depth_irrelevant(1) [of U cfg obj d1 d2] depth_irrelevant(1) [of U cfg obj 0 "d + 1"]
  by simp

section \<open>The order of the fields\<close>

lemma sort_same_set:
  fixes xs ys :: "'a::linorder list"
  assumes "distinct xs" and "distinct ys" and "set xs = set ys"
  shows "sort xs = sort ys"
proof (rule sorted_distinct_set_unique)
  show "sorted (sort xs)" and "sorted (sort ys)" by simp_all
  show "distinct (sort xs)" and "distinct (sort ys)" using assms by simp_all
  show "set (sort xs) = set (sort ys)" using assms by simp
qed

lemma same_mapping_TypeOf: "same_mapping v v' \<Longrightarrow> TypeOf v = TypeOf v'"
  by (cases v; cases v') simp_all

lemma unique_keys_index_map: "unique_keys (GMap obj) \<Longrightarrow> unique_keys (index_map obj key)"
  by (induction obj) (auto simp: index_map_def)

lemma same_mapping_at_key:
  assumes "same_mapping (GMap obj) (GMap obj')" and "key \<in> set (map fst obj)"
  shows "same_mapping (index_map obj key) (index_map obj' key)"
proof -
  have "\<forall>k \<in> set (map fst obj). same_mapping (index_map obj k) (index_map obj' k)"
    using assms(1) unfolding same_mapping.simps list_all_iff by blast
  with assms(2) show ?thesis by blast
qed

lemma same_mapping_GMapSlice:
  "same_mapping (GMapSlice ms) v' \<Longrightarrow> \<exists>ms'. v' = GMapSlice ms'"
  by (cases v') simp_all

lemma same_mapping_renders:
  "unique_keys (GMap obj) \<Longrightarrow> unique_keys (GMap obj') \<Longrightarrow> same_mapping (GMap obj) (GMap obj') \<Longrightarrow>
     generateTypes U cfg obj depth = generateTypes U cfg obj' depth'"
  "unique_keys (index_map obj key) \<Longrightarrow> unique_keys (index_map obj' key) \<Longrightarrow>
   same_mapping (index_map obj key) (index_map obj' key) \<Longrightarrow>
     generateField U cfg obj depth key = generateField U cfg obj' depth' key"
  "unique_keys v \<Longrightarrow> unique_keys v' \<Longrightarrow> same_mapping v v' \<Longrightarrow>
     typeForValue U cfg v = typeForValue U cfg v'"
proof (induction U cfg obj depth and U cfg obj depth key and U cfg v
       arbitrary: obj' depth' and obj' depth' and v'
       rule: generateTypes_generateField_typeForValue.induct)
  case (1 U cfg obj depth)
  have keys: "sort (map fst obj) = sort (map fst obj')"
    using "1.prems" by (intro sort_same_set) simp_all
  have "those (map (generateField U cfg obj depth) (sort (map fst obj)))
      = those (map (generateField U cfg obj' depth') (sort (map fst obj)))"
  proof (rule those_map_cong)
    fix key assume key: "key \<in> set (sort (map fst obj))"
    then have "key \<in> set (map fst obj)" by simp
    with "1.prems"(3) have "same_mapping (index_map obj key) (index_map obj' key)"
      by (rule same_mapping_at_key)
    moreover have "unique_keys (index_map obj key)" and "unique_keys (index_map obj' key)"
      using "1.prems" by (simp_all only: unique_keys_index_map)
    ultimately show "generateField U cfg obj depth key = generateField U cfg obj' depth' key"
      using key by (intro "1.IH")
  qed
  then show ?case
    unfolding generateTypes.simps [of U cfg obj] generateTypes.simps [of U cfg obj'] keys
    by simp
next
  case (2 U cfg obj depth key)
  have types: "typeForValue U cfg (index_map obj key) = typeForValue U cfg (index_map obj' key)"
    using "2.prems" by (intro "2.IH"(1))
  show ?case
  proof (cases "typeForValue U cfg (index_map obj key)")
    case None
    then show ?thesis using types by (simp add: generateField_None)
  next
    case (Some valueType)
    then have Some': "typeForValue U cfg (index_map obj' key) = Some valueType"
      using types by simp
    show ?thesis
    proof (cases "index_map obj key")
      case (GMap m)
      then obtain m' where m': "index_map obj' key = GMap m'"
        using "2.prems"(3) by (cases "index_map obj' key") simp_all
      have inner: "unique_keys (GMap m)" "unique_keys (GMap m')" "same_mapping (GMap m) (GMap m')"
        using "2.prems" unfolding m' GMap by simp_all
      have "generateTypes U cfg m (depth + 1) = generateTypes U cfg m' (depth' + 1)"
        by (rule "2.IH"(2) [OF Some GMap inner])
      then show ?thesis
        using GMap m' by (simp add: generateField_Some [OF Some] generateField_Some [OF Some'])
    next
      case (GMapSlice ms)
      then obtain ms' where ms': "index_map obj' key = GMapSlice ms'"
        using "2.prems"(3) by (cases "index_map obj' key") simp_all
      have all2: "list_all2 (\<lambda>m m'. same_mapping (GMap m) (GMap m')) ms ms'"
        using "2.prems"(3) unfolding GMapSlice ms' by simp
      show ?thesis
      proof (cases ms)
        case Nil
        then have "ms' = []" using all2 by simp
        then show ?thesis
          using Nil GMapSlice ms'
          by (simp add: generateField_Some [OF Some] generateField_Some [OF Some'])
      next
        case (Cons m rest)
        then obtain m' rest' where Cons': "ms' = m' # rest'" and
          head: "same_mapping (GMap m) (GMap m')"
          using all2 by (auto simp: list_all2_Cons1)
        have "unique_keys (GMap m)" and "unique_keys (GMap m')"
          using "2.prems"(1,2) unfolding GMapSlice ms' Cons Cons' by simp_all
        then have "generateTypes U cfg m (depth + 1) = generateTypes U cfg m' (depth' + 1)"
          using head by (intro "2.IH"(3) [OF Some GMapSlice Cons])
        then show ?thesis
          using GMapSlice ms' Cons Cons'
          by (simp add: generateField_Some [OF Some] generateField_Some [OF Some'])
      qed
    next
      case GNil
      then have "index_map obj' key = GNil" using "2.prems"(3) by simp
      then show ?thesis using GNil
        by (simp add: generateField_Some [OF Some] generateField_Some [OF Some'])
    next
      case (GBool b)
      then have "index_map obj' key = GBool b" using "2.prems"(3) by simp
      then show ?thesis using GBool
        by (simp add: generateField_Some [OF Some] generateField_Some [OF Some'])
    next
      case (GFloat64 x)
      then have "index_map obj' key = GFloat64 x" using "2.prems"(3) by simp
      then show ?thesis using GFloat64
        by (simp add: generateField_Some [OF Some] generateField_Some [OF Some'])
    next
      case (GString x)
      then have "index_map obj' key = GString x" using "2.prems"(3) by simp
      then show ?thesis using GString
        by (simp add: generateField_Some [OF Some] generateField_Some [OF Some'])
    next
      case (GSlice xs)
      then obtain ys where "index_map obj' key = GSlice ys"
        using "2.prems"(3) by (cases "index_map obj' key") simp_all
      then show ?thesis using GSlice
        by (simp add: generateField_Some [OF Some] generateField_Some [OF Some'])
    qed
  qed
next
  case (3 U cfg objects)
  from "3.prems"(3) obtain ys where v': "v' = GSlice ys"
    by (cases v') simp_all
  have all2: "list_all2 same_mapping objects ys"
    using "3.prems"(3) unfolding v' by simp
  have "map TypeOf objects = map TypeOf ys"
    using all2 by (induction rule: list_all2_induct) (simp_all add: same_mapping_TypeOf)
  then have types: "length (remdups (map TypeOf objects)) = length (remdups (map TypeOf ys))"
    by simp
  show ?case
  proof (cases "length (remdups (map TypeOf objects)) = 1")
    case False
    then show ?thesis using types unfolding v' by simp
  next
    case True
    show ?thesis
    proof (cases objects)
      case Nil
      then show ?thesis using True by simp
    next
      case (Cons x rest)
      then obtain y rest' where ys: "ys = y # rest'" and head: "same_mapping x y"
        using all2 by (auto simp: list_all2_Cons1)
      have "unique_keys x" and "unique_keys y"
        using "3.prems"(1,2) unfolding v' Cons ys by simp_all
      then have "typeForValue U cfg x = typeForValue U cfg y"
        using head by (intro "3.IH" [OF True Cons])
      then show ?thesis
        using True types unfolding v' Cons ys by simp
    qed
  qed
next
  case (4 U cfg object)
  from "4.prems"(3) obtain m' where v': "v' = GMap m'"
    by (cases v') simp_all
  have "generateTypes U cfg object 0 = generateTypes U cfg m' 0"
    using "4.prems" unfolding v' by (intro "4.IH")
  then show ?case unfolding v' by simp
qed (auto dest: same_mapping_GMapSlice)

lemma keys_store: "fst ` set (store kv m) = insert (fst kv) (fst ` set m)"
  by (induction kv m rule: store.induct) auto

lemma distinct_store: "distinct (map fst m) \<Longrightarrow> distinct (map fst (store kv m))"
proof (induction kv m rule: store.induct)
  case (2 k v p ps)
  then show ?case using keys_store [of "(k, v)" ps] by auto
qed simp

lemma unique_keys_store:
  "list_all (\<lambda>kv. unique_keys (snd kv)) m \<Longrightarrow> unique_keys (snd kv) \<Longrightarrow>
   list_all (\<lambda>kv. unique_keys (snd kv)) (store kv m)"
  by (induction kv m rule: store.induct) auto

lemma unique_keys_fold_store:
  "distinct (map fst m) \<Longrightarrow> list_all (\<lambda>kv. unique_keys (snd kv)) m \<Longrightarrow>
   list_all (\<lambda>kv. unique_keys (snd kv)) kvs \<Longrightarrow>
   unique_keys (GMap (fold store kvs m))"
  by (induction kvs arbitrary: m) (simp_all add: unique_keys_store distinct_store)

lemma unique_keys_decode: "unique_keys (decode doc)"
proof (induction doc rule: decode.induct)
  case (5 xs)
  then show ?case by (simp add: list_all_iff)
next
  case (6 members)
  have "list_all (\<lambda>kv. unique_keys (snd kv)) (map (\<lambda>(k, v). (k, decode v)) members)"
    using 6 by (auto simp: list_all_iff)
  then show ?case using unique_keys_fold_store [of "[]"] by simp
qed simp_all

text \<open>
  Claim C3. The fields of a generated struct follow the sorted list of the keys of the
  object, and the text depends on the mapping only: two maps with unique keys that hold the
  same mapping, whatever the order in which they (and the maps nested in them) list their
  keys, give the same text. Every decoded document has unique keys (\<open>unique_keys_decode\<close>).
\<close>

theorem generateTypes_key_order:
  "(unique_keys (GMap obj) \<and> unique_keys (GMap obj') \<and> same_mapping (GMap obj) (GMap obj')
      \<longrightarrow> generateTypes U cfg obj depth = generateTypes U cfg obj' depth)
   \<and> (\<exists>keys. sorted keys \<and> set keys = set (map fst obj) \<and> length keys = length obj
         \<and> (distinct (map fst obj) \<longrightarrow> distinct keys)
         \<and> generateTypes U cfg obj depth =
             map_option (\<lambda>fields. str ''struct {'' @ concat fields)
               (those (map (generateField U cfg obj depth) keys)))"
proof (intro conjI impI)
  assume "unique_keys (GMap obj) \<and> unique_keys (GMap obj') \<and> same_mapping (GMap obj) (GMap obj')"
  then show "generateTypes U cfg obj depth = generateTypes U cfg obj' depth"
    using same_mapping_renders(1) by blast
next
  let ?keys = "sort (map fst obj)"
  have "sorted ?keys \<and> set ?keys = set (map fst obj) \<and> length ?keys = length obj
        \<and> (distinct (map fst obj) \<longrightarrow> distinct ?keys)
        \<and> generateTypes U cfg obj depth =
            map_option (\<lambda>fields. str ''struct {'' @ concat fields)
              (those (map (generateField U cfg obj depth) ?keys))"
    by (simp add: generateTypes.simps [of U cfg obj])
  then show "\<exists>keys. sorted keys \<and> set keys = set (map fst obj) \<and> length keys = length obj
         \<and> (distinct (map fst obj) \<longrightarrow> distinct keys)
         \<and> generateTypes U cfg obj depth =
             map_option (\<lambda>fields. str ''struct {'' @ concat fields)
               (those (map (generateField U cfg obj depth) keys))"
    by (rule exI)
qed

theorem generateTypes_key_order_witness:
  "unique_keys (GMap [(str ''b'', GFloat64 1),
                      (str ''a'', GMap [(str ''y'', GNil), (str ''x'', GBool True)])])
   \<and> unique_keys (GMap [(str ''a'', GMap [(str ''x'', GBool True), (str ''y'', GNil)]),
                        (str ''b'', GFloat64 1)])
   \<and> same_mapping
        (GMap [(str ''b'', GFloat64 1),
               (str ''a'', GMap [(str ''y'', GNil), (str ''x'', GBool True)])])
        (GMap [(str ''a'', GMap [(str ''x'', GBool True), (str ''y'', GNil)]),
               (str ''b'', GFloat64 1)])
   \<and> generateTypes ascii_tables default_config
        [(str ''b'', GFloat64 1), (str ''a'', GMap [(str ''y'', GNil), (str ''x'', GBool True)])] 0
     = generateTypes ascii_tables default_config
        [(str ''a'', GMap [(str ''x'', GBool True), (str ''y'', GNil)]), (str ''b'', GFloat64 1)] 0
   \<and> generateTypes ascii_tables default_config
        [(str ''b'', GFloat64 1), (str ''a'', GMap [(str ''y'', GNil), (str ''x'', GBool True)])] 0
     = Some (str ''struct {\<newline>A struct {\<newline>X bool`json:\"x\"`\<newline>Y interface{}`json:\"y\"`}`json:\"a\"`\<newline>B float64`json:\"b\"`'')"
proof -
  let ?obj = "[(str ''b'', GFloat64 1),
               (str ''a'', GMap [(str ''y'', GNil), (str ''x'', GBool True)])]"
  let ?obj' = "[(str ''a'', GMap [(str ''x'', GBool True), (str ''y'', GNil)]),
                (str ''b'', GFloat64 1)]"
  have u: "unique_keys (GMap ?obj)" and u': "unique_keys (GMap ?obj')"
    by (simp_all add: str_def)
  have s: "same_mapping (GMap ?obj) (GMap ?obj')"
    by (simp add: str_def index_map_def insert_commute)
  have rendered: "generateTypes ascii_tables default_config ?obj 0
     = Some (str ''struct {\<newline>A struct {\<newline>X bool`json:\"x\"`\<newline>Y interface{}`json:\"y\"`}`json:\"a\"`\<newline>B float64`json:\"b\"`'')"
    by code_simp
  have "generateTypes ascii_tables default_config ?obj 0
          = generateTypes ascii_tables default_config ?obj' 0"
    using generateTypes_key_order [of ?obj ?obj' ascii_tables default_config 0] u u' s
    by blast
  with u u' s rendered show ?thesis by blast
qed

end
